theory Spec2Isabelle
  imports Main "HOL-Library.Word"
begin

unbundle bit_operations_syntax

section \<open>Machine types and run-time panics\<close>

type_synonym byte = "8 word"
type_synonym u16 = "16 word"
type_synonym u32 = "32 word"
type_synonym u64 = "64 word"

text \<open>
  The two run-time panics the program can raise: a slice expression whose bounds are
  out of range, and an index out of range (the bounds-check hint \<open>_ = b[3]\<close> at the
  head of the \<open>encoding/binary\<close> readers).
\<close>

datatype panic = SliceBoundsOutOfRange | IndexOutOfRange

definition and_then :: "panic + 'a \<Rightarrow> ('a \<Rightarrow> panic + 'b) \<Rightarrow> panic + 'b" where
  "and_then r f = (case r of Inl e \<Rightarrow> Inl e | Inr v \<Rightarrow> f v)"

text \<open>
  A Go slice expression \<open>s[lo:hi]\<close> on a byte slice whose visible elements are \<open>xs\<close>
  and whose backing array continues with \<open>spare\<close> up to the capacity. The upper bound
  is checked against the capacity, not the length.
\<close>

definition go_slice :: "byte list \<Rightarrow> byte list \<Rightarrow> nat \<Rightarrow> nat \<Rightarrow> panic + byte list" where
  "go_slice xs spare lo hi =
     (if lo \<le> hi \<and> hi \<le> length xs + length spare
      then Inr (take (hi - lo) (drop lo (xs @ spare)))
      else Inl SliceBoundsOutOfRange)"

text \<open>
  \<open>s[lo:]\<close> is \<open>s[lo:len(s)]\<close>: the upper bound is the length, which never exceeds the
  capacity, so the spare part of the backing array plays no role.
\<close>

definition go_slice_from :: "byte list \<Rightarrow> nat \<Rightarrow> panic + byte list" where
  "go_slice_from xs lo = go_slice xs [] lo (length xs)"

section \<open>\<open>encoding/binary\<close>: little-endian readers and writers\<close>

text \<open>
  The values \<open>Uint32\<close> and \<open>Uint64\<close> assemble from the first bytes of their argument;
  an argument that is too short fails the bounds check.
\<close>

definition le_u32 :: "byte \<Rightarrow> byte \<Rightarrow> byte \<Rightarrow> byte \<Rightarrow> u32" where
  "le_u32 b0 b1 b2 b3 =
     ucast b0 OR push_bit 8 (ucast b1) OR push_bit 16 (ucast b2) OR push_bit 24 (ucast b3)"

definition le_u64 ::
    "byte \<Rightarrow> byte \<Rightarrow> byte \<Rightarrow> byte \<Rightarrow> byte \<Rightarrow> byte \<Rightarrow> byte \<Rightarrow> byte \<Rightarrow> u64" where
  "le_u64 b0 b1 b2 b3 b4 b5 b6 b7 =
     ucast b0 OR push_bit 8 (ucast b1) OR push_bit 16 (ucast b2) OR push_bit 24 (ucast b3)
     OR push_bit 32 (ucast b4) OR push_bit 40 (ucast b5) OR push_bit 48 (ucast b6)
     OR push_bit 56 (ucast b7)"

fun Uint32 :: "byte list \<Rightarrow> panic + u32" where
  "Uint32 (b0 # b1 # b2 # b3 # _) = Inr (le_u32 b0 b1 b2 b3)"
| "Uint32 _ = Inl IndexOutOfRange"

fun Uint64 :: "byte list \<Rightarrow> panic + u64" where
  "Uint64 (b0 # b1 # b2 # b3 # b4 # b5 # b6 # b7 # _) = Inr (le_u64 b0 b1 b2 b3 b4 b5 b6 b7)"
| "Uint64 _ = Inl IndexOutOfRange"

text \<open>
  The writers are only ever applied to a freshly made slice of exactly the right size
  (\<open>make([]byte, 4)\<close>), so they are modelled as returning that slice's final contents.
\<close>

definition PutUint16 :: "u16 \<Rightarrow> byte list" where
  "PutUint16 v = [ucast v, ucast (drop_bit 8 v)]"

definition PutUint32 :: "u32 \<Rightarrow> byte list" where
  "PutUint32 v = [ucast v, ucast (drop_bit 8 v), ucast (drop_bit 16 v), ucast (drop_bit 24 v)]"

definition PutUint64 :: "u64 \<Rightarrow> byte list" where
  "PutUint64 v =
     [ucast v, ucast (drop_bit 8 v), ucast (drop_bit 16 v), ucast (drop_bit 24 v),
      ucast (drop_bit 32 v), ucast (drop_bit 40 v), ucast (drop_bit 48 v), ucast (drop_bit 56 v)]"

section \<open>\<open>hash/crc32\<close>: the IEEE checksum\<close>

text \<open>
  The library's generic implementation: a 256-entry table built from the reversed IEEE
  polynomial (\<open>simplePopulateTable\<close>), and a byte-at-a-time update (\<open>simpleUpdate\<close>)
  between an initial and a final complement.
\<close>

definition IEEE :: u32 where
  "IEEE = 0xedb88320"

definition crc_shift :: "u32 \<Rightarrow> u32" where
  "crc_shift crc = (if crc AND 1 = 1 then drop_bit 1 crc XOR IEEE else drop_bit 1 crc)"

fun populate :: "nat \<Rightarrow> u32 \<Rightarrow> u32" where
  "populate 0 crc = crc"
| "populate (Suc j) crc = populate j (crc_shift crc)"

definition IEEETable :: "byte \<Rightarrow> u32" where
  "IEEETable i = populate 8 (ucast i)"

fun simpleUpdate_loop :: "u32 \<Rightarrow> byte list \<Rightarrow> u32" where
  "simpleUpdate_loop crc [] = crc"
| "simpleUpdate_loop crc (v # p) =
     simpleUpdate_loop (IEEETable (ucast crc XOR v) XOR drop_bit 8 crc) p"

definition ChecksumIEEE :: "byte list \<Rightarrow> u32" where
  "ChecksumIEEE data = NOT (simpleUpdate_loop (NOT 0) data)"

section \<open>\<open>time\<close>: Unix timestamps\<close>

text \<open>
  A \<open>time.Time\<close> is kept as the pair the library builds it from: whole seconds since
  the Unix epoch and nanoseconds within the second; its location, which only the
  rendering uses, is left out. \<open>int64\<close> division and remainder truncate towards zero
  (\<open>quo\<close> and \<open>rem\<close>, for a positive divisor). \<open>UnixMilli\<close> is only applied to an
  \<open>int64\<close>, and for such an argument no operation below leaves the \<open>int64\<close> range,
  so they are written on \<open>int\<close>.
\<close>

record Time =
  unix_sec :: int
  unix_nsec :: int

definition quo :: "int \<Rightarrow> int \<Rightarrow> int" where
  "quo a b = (if 0 \<le> a then a div b else - ((- a) div b))"

definition rem :: "int \<Rightarrow> int \<Rightarrow> int" where
  "rem a b = a - b * quo a b"

definition Unix :: "int \<Rightarrow> int \<Rightarrow> Time" where
  "Unix s ns =
     (if ns < 0 \<or> ns \<ge> 1000000000 then
        (let n = quo ns 1000000000;
             s1 = s + n;
             ns1 = ns - n * 1000000000
         in if ns1 < 0 then \<lparr>unix_sec = s1 - 1, unix_nsec = ns1 + 1000000000\<rparr>
            else \<lparr>unix_sec = s1, unix_nsec = ns1\<rparr>)
      else \<lparr>unix_sec = s, unix_nsec = ns\<rparr>)"

definition UnixMilli :: "int \<Rightarrow> Time" where
  "UnixMilli msec = Unix (quo msec 1000) (rem msec 1000 * 1000000)"

text \<open>The instant a \<open>Time\<close> denotes, in nanoseconds relative to the epoch.\<close>

definition unix_nanos :: "Time \<Rightarrow> int" where
  "unix_nanos t = unix_sec t * 1000000000 + unix_nsec t"

text \<open>The method \<open>Time.UnixMilli\<close>, the way back to milliseconds.\<close>

definition Time_UnixMilli :: "Time \<Rightarrow> int" where
  "Time_UnixMilli t = unix_sec t * 1000 + quo (unix_nsec t) 1000000"

section \<open>The capture header\<close>

record Header =
  SampleRate :: u32
  CenterFreq :: u64
  Timestamp :: Time
  SampleSize :: u32
  Reserved :: u32
  CRC :: u32
  CRCValid :: bool

text \<open>Decimal formatting of an unsigned value (\<open>%d\<close>).\<close>

function FormatUint :: "nat \<Rightarrow> string" where
  "FormatUint n =
     (if n < 10 then [char_of (48 + n)]
      else FormatUint (n div 10) @ [char_of (48 + n mod 10)])"
  by pat_completeness auto
termination
  by (relation "measure id") auto

definition FormatBool :: "bool \<Rightarrow> string" where
  "FormatBool b = (if b then ''true'' else ''false'')"

text \<open>
  \<open>Header.String\<close>. The rendering of the timestamp depends on the local time zone of
  the machine, so \<open>Time.String\<close> is a parameter.
\<close>

definition String :: "(Time \<Rightarrow> string) \<Rightarrow> Header \<Rightarrow> string" where
  "String timeString h =
     ''SampleRate: '' @ FormatUint (unat (SampleRate h)) @ [CHR 0x0A, CHR 0x0D] @
     ''CenterFreq: '' @ FormatUint (unat (CenterFreq h)) @ [CHR 0x0A, CHR 0x0D] @
     ''Timestamp: '' @ timeString (Timestamp h) @ [CHR 0x0A, CHR 0x0D] @
     ''SampleSize: '' @ FormatUint (unat (SampleSize h)) @ [CHR 0x0A, CHR 0x0D] @
     ''CRC: '' @ FormatBool (CRCValid h)"

text \<open>
  Lines 66 to 84 of \<open>main\<close>: the fields are read from the 32-byte slice \<open>header\<close>
  (whose backing array continues with \<open>hspare\<close>), the checksum of its first 28 bytes is
  compared with the stored one, and the raw timestamp is converted through \<open>int64\<close>.
  The result is the filled-in \<open>Header\<close> together with the local variable \<open>timestamp\<close>.
\<close>

definition decode_header :: "byte list \<Rightarrow> byte list \<Rightarrow> panic + (Header \<times> u64)" where
  "decode_header header hspare =
     and_then (and_then (go_slice header hspare 0 4) Uint32) (\<lambda>sampleRate.
     and_then (and_then (go_slice header hspare 4 12) Uint64) (\<lambda>centerFreq.
     and_then (and_then (go_slice header hspare 12 20) Uint64) (\<lambda>timestamp.
     and_then (and_then (go_slice header hspare 20 24) Uint32) (\<lambda>sampleSize.
     and_then (and_then (go_slice header hspare 24 28) Uint32) (\<lambda>reserved.
     and_then (and_then (go_slice header hspare 28 32) Uint32) (\<lambda>storedCrc.
     and_then (go_slice header hspare 0 28) (\<lambda>covered.
       Inr (\<lparr>SampleRate = sampleRate, CenterFreq = centerFreq,
                Timestamp = UnixMilli (sint timestamp),
                SampleSize = sampleSize, Reserved = reserved, CRC = storedCrc,
                CRCValid = (ChecksumIEEE covered = storedCrc)\<rparr>, timestamp))))))))"

section \<open>The audio container\<close>

definition byte_of_char :: "char \<Rightarrow> byte" where
  "byte_of_char c = of_nat (of_char c)"

text \<open>Lines 95 and 96: the byte rate, computed in \<open>uint32\<close> arithmetic.\<close>

definition sampleRateCalc :: "u32 \<Rightarrow> u32" where
  "sampleRateCalc sampleRate = (sampleRate * 16 * 2) div 8"

text \<open>Lines 98 to 120: the 44-byte preamble with both size fields still zero.\<close>

definition waveHeader :: "u32 \<Rightarrow> byte list" where
  "waveHeader sampleRate =
     (let sampleRateBytes = PutUint32 sampleRate;
          sampleRateCalcBytes = PutUint32 (sampleRateCalc sampleRate)
      in [byte_of_char CHR ''R'', byte_of_char CHR ''I'', byte_of_char CHR ''F'', byte_of_char CHR ''F'',
          0, 0, 0, 0,
          byte_of_char CHR ''W'', byte_of_char CHR ''A'', byte_of_char CHR ''V'', byte_of_char CHR ''E'',
          byte_of_char CHR ''f'', byte_of_char CHR ''m'', byte_of_char CHR ''t'', byte_of_char CHR '' '',
          16, 0, 0, 0,
          1, 0,
          2, 0,
          sampleRateBytes ! 0, sampleRateBytes ! 1, sampleRateBytes ! 2, sampleRateBytes ! 3,
          sampleRateCalcBytes ! 0, sampleRateCalcBytes ! 1, sampleRateCalcBytes ! 2,
          sampleRateCalcBytes ! 3,
          4, 0,
          16, 0,
          byte_of_char CHR ''d'', byte_of_char CHR ''a'', byte_of_char CHR ''t'', byte_of_char CHR ''a'',
          0, 0, 0, 0])"

text \<open>
  Lines 130 to 135: one 32-bit group, read as \<open>int32\<close>, shifted left by 8, shifted
  right arithmetically by 16, converted to \<open>uint16\<close> and written little-endian.
\<close>

definition sampleBytes :: "u32 \<Rightarrow> byte list" where
  "sampleBytes u = PutUint16 (ucast (signed_drop_bit 16 (push_bit 8 u)))"

definition startIndex :: nat where
  "startIndex = 32"

text \<open>
  Lines 128 to 137: the loop over the groups. The bound \<open>len(content[startIndex:])/4\<close>
  is evaluated before every iteration, so the slice expression in it can panic, as can
  \<open>content[index:]\<close> and the read of the group.
\<close>

function sample_loop :: "byte list \<Rightarrow> nat \<Rightarrow> byte list \<Rightarrow> panic + byte list" where
  "sample_loop content i body =
     (case go_slice_from content startIndex of
        Inl p \<Rightarrow> Inl p
      | Inr rest \<Rightarrow>
          if i < length rest div 4 then
            (case go_slice_from content (startIndex + i * 4) of
               Inl p \<Rightarrow> Inl p
             | Inr grp \<Rightarrow>
                 (case Uint32 grp of
                    Inl p \<Rightarrow> Inl p
                  | Inr sample \<Rightarrow> sample_loop content (i + 1) (body @ sampleBytes sample)))
          else Inr body)"
  by pat_completeness auto
termination
  by (relation "measure (\<lambda>(content, i, body). (length content - startIndex) div 4 - i)")
     (auto simp: go_slice_from_def go_slice_def split: if_splits)

declare sample_loop.simps [simp del]

text \<open>Lines 146 to 169: the two size fields are written into the assembled buffer.\<close>

definition backpatch :: "byte list \<Rightarrow> byte list" where
  "backpatch body =
     (let fileSizeBytes = PutUint32 (of_nat (length body - 8));
          body1 = body[4 := fileSizeBytes ! 0, 5 := fileSizeBytes ! 1,
                       6 := fileSizeBytes ! 2, 7 := fileSizeBytes ! 3];
          dataSizeBytes = PutUint32 (of_nat (length body1 - 44))
      in body1[40 := dataSizeBytes ! 0, 41 := dataSizeBytes ! 1,
               42 := dataSizeBytes ! 2, 43 := dataSizeBytes ! 3])"

section \<open>The program\<close>

text \<open>
  The model starts where the file has been read: flag parsing and opening and reading
  the input come before it, and writing and closing are taken to succeed, so the only
  failures left are the run-time panics. What a run leaves behind: the lines printed,
  the messages logged, the contents handed to the writer of the two output files
  (\<open>None\<close> when the file was not written), and how the process ended.
\<close>

datatype ending = Exited nat | Panicked panic

record outcome =
  printed :: "string list"
  logged :: "string list"
  info_file :: "string option"
  wav_file :: "byte list option"
  ending :: ending

text \<open>
  Lines 62 to 84: the header slice \<open>content[:32]\<close> and its decoding, for the file
  contents \<open>content\<close> read into a buffer whose backing array continues with \<open>spare\<close>
  beyond the length.
\<close>

definition read_header :: "byte list \<Rightarrow> byte list \<Rightarrow> panic + (Header \<times> u64)" where
  "read_header content spare =
     and_then (go_slice content spare 0 32)
       (\<lambda>header. decode_header header (drop 32 (content @ spare)))"

text \<open>\<open>main\<close> from line 62 on.\<close>

definition main :: "(Time \<Rightarrow> string) \<Rightarrow> byte list \<Rightarrow> byte list \<Rightarrow> outcome" where
  "main timeString content spare =
     (case read_header content spare of
        Inl p \<Rightarrow>
          \<lparr>printed = [], logged = [], info_file = None, wav_file = None, ending = Panicked p\<rparr>
      | Inr (h, timestamp) \<Rightarrow>
          (let logged1 = (if \<not> CRCValid h then [''CRC mismatch''] else []);
               report = String timeString h
           in case and_then (sample_loop content 0 (waveHeader (SampleRate h)))
                     (\<lambda>body. and_then (go_slice_from body 44)
                     (\<lambda>bodySamples. Inr (body, length bodySamples div 2))) of
                Inl p \<Rightarrow>
                  \<lparr>printed = [report], logged = logged1, info_file = Some report,
                   wav_file = None, ending = Panicked p\<rparr>
              | Inr (body, bodySamplesLen) \<Rightarrow>
                  \<lparr>printed = [report],
                   logged = logged1 @
                     [''body samples length: '' @ FormatUint (bodySamplesLen mod 8), ''done''],
                   info_file = Some report,
                   wav_file = Some (backpatch body),
                   ending = Exited 0\<rparr>))"

section \<open>Definitions used to state the properties\<close>

text \<open>The number a byte string denotes when read little-endian.\<close>

fun le_nat :: "byte list \<Rightarrow> nat" where
  "le_nat [] = 0"
| "le_nat (b # bs) = unat b + 256 * le_nat bs"

text \<open>
  The re-encoding rule in the specification's words, on integers: the group is read as
  a signed 32-bit little-endian number, shifted left by 8 within 32 bits, shifted right
  by 16 keeping the sign, cut to a signed 16-bit number, and written as two
  little-endian bytes.
\<close>

definition spec_sample :: "byte \<Rightarrow> byte \<Rightarrow> byte \<Rightarrow> byte \<Rightarrow> byte list" where
  "spec_sample b0 b1 b2 b3 =
     (let v = signed_take_bit 31 (int (le_nat [b0, b1, b2, b3]));
          shifted_left = signed_take_bit 31 (v * 2 ^ 8);
          shifted_right = shifted_left div 2 ^ 16;
          t = signed_take_bit 15 shifted_right
      in [of_int (t mod 2 ^ 8), of_int (t div 2 ^ 8 mod 2 ^ 8)])"

text \<open>
  The payload in the specification's words: consecutive non-overlapping groups of four
  bytes, stopping at the last full group.
\<close>

fun spec_payload :: "byte list \<Rightarrow> byte list" where
  "spec_payload (b0 # b1 # b2 # b3 # rest) = spec_sample b0 b1 b2 b3 @ spec_payload rest"
| "spec_payload _ = []"

text \<open>
  Modelled from the spec: the program has no encoder for the capture header. The
  round-trip property re-encodes the decoded fields into the byte layout of the
  specification (\<open>[0:4)\<close> sample rate, \<open>[4:12)\<close> centre frequency, \<open>[12:20)\<close> raw
  timestamp, \<open>[20:24)\<close> sample size, \<open>[24:28)\<close> reserved, \<open>[28:32)\<close> stored checksum),
  with the little-endian writers of \<open>encoding/binary\<close>.
\<close>

definition encode_header :: "Header \<Rightarrow> u64 \<Rightarrow> byte list" where
  "encode_header h timestamp =
     PutUint32 (SampleRate h) @ PutUint64 (CenterFreq h) @ PutUint64 timestamp @
     PutUint32 (SampleSize h) @ PutUint32 (Reserved h) @ PutUint32 (CRC h)"

text \<open>
  The example of the specification: a header with sample rate 8000, every other field
  zero and the matching checksum, followed by the groups \<open>0x00010000\<close> and
  \<open>0xFFFE0000\<close>.
\<close>

definition example_header :: "byte list" where
  "example_header =
     [0x40, 0x1f, 0, 0,  0, 0, 0, 0, 0, 0, 0, 0,  0, 0, 0, 0, 0, 0, 0, 0,
      0, 0, 0, 0,  0, 0, 0, 0,  0xf0, 0x0b, 0x2c, 0xa3]"

definition example_capture :: "byte list" where
  "example_capture = example_header @ [0, 0, 1, 0,  0, 0, 0xfe, 0xff]"

text \<open>
  The header a buffer of at least 32 bytes decodes to, in closed form: each field read at
  its offset.
\<close>

definition field32 :: "byte list \<Rightarrow> nat \<Rightarrow> u32" where
  "field32 c off = le_u32 (c ! off) (c ! (off + 1)) (c ! (off + 2)) (c ! (off + 3))"

definition field64 :: "byte list \<Rightarrow> nat \<Rightarrow> u64" where
  "field64 c off = le_u64 (c ! off) (c ! (off + 1)) (c ! (off + 2)) (c ! (off + 3))
                          (c ! (off + 4)) (c ! (off + 5)) (c ! (off + 6)) (c ! (off + 7))"

definition header_at :: "byte list \<Rightarrow> Header" where
  "header_at c =
     \<lparr>SampleRate = field32 c 0, CenterFreq = field64 c 4,
      Timestamp = UnixMilli (sint (field64 c 12)),
      SampleSize = field32 c 20, Reserved = field32 c 24, CRC = field32 c 28,
      CRCValid = (ChecksumIEEE (take 28 c) = field32 c 28)\<rparr>"

section \<open>Slices, readers and writers\<close>

lemma and_then_Inr [simp]: "and_then (Inr v) f = f v"
  by (simp add: and_then_def)

lemma and_then_Inl [simp]: "and_then (Inl e) f = Inl e"
  by (simp add: and_then_def)

lemma go_slice_from_eq:
  "go_slice_from xs lo =
     (if lo \<le> length xs then Inr (drop lo xs) else Inl SliceBoundsOutOfRange)"
  by (simp add: go_slice_from_def go_slice_def)

lemma go_slice_within:
  "lo \<le> hi \<Longrightarrow> hi \<le> length xs \<Longrightarrow>
   go_slice xs spare lo hi = Inr (take (hi - lo) (drop lo xs))"
  by (simp add: go_slice_def)

lemma list4:
  "4 \<le> length xs \<Longrightarrow> \<exists>a b c d ys. xs = a # b # c # d # ys"
  by (cases xs; simp; cases "tl xs"; simp; cases "tl (tl xs)"; simp;
      cases "tl (tl (tl xs))"; simp)

lemma list4_exact:
  "length xs = 4 \<Longrightarrow> xs = [xs ! 0, xs ! 1, xs ! 2, xs ! 3]"
  using list4[of xs] by auto

lemma list8_exact:
  "length xs = 8 \<Longrightarrow> xs = [xs ! 0, xs ! 1, xs ! 2, xs ! 3, xs ! 4, xs ! 5, xs ! 6, xs ! 7]"
proof -
  assume len: "length xs = 8"
  then obtain a b c d ys where xs: "xs = a # b # c # d # ys" using list4[of xs] by auto
  with len have "length ys = 4" by simp
  then obtain e f g h zs where ys: "ys = e # f # g # h # zs" using list4[of ys] by auto
  with \<open>length ys = 4\<close> have "zs = []" by simp
  with xs ys show ?thesis by simp
qed

lemma unat_byte_less: "unat (x :: byte) < 256"
  using unsigned_less[of x, where ?'a = nat] by simp

lemma le_u32_bytes:
  "(ucast (le_u32 a b c d) :: byte) = a"
  "(ucast (drop_bit 8 (le_u32 a b c d)) :: byte) = b"
  "(ucast (drop_bit 16 (le_u32 a b c d)) :: byte) = c"
  "(ucast (drop_bit 24 (le_u32 a b c d)) :: byte) = d"
  unfolding le_u32_def
  by (rule bit_eqI; auto simp: bit_simps dest: bit_imp_le_length)+

lemma le_u64_bytes:
  "(ucast (le_u64 a b c d e f g h) :: byte) = a"
  "(ucast (drop_bit 8 (le_u64 a b c d e f g h)) :: byte) = b"
  "(ucast (drop_bit 16 (le_u64 a b c d e f g h)) :: byte) = c"
  "(ucast (drop_bit 24 (le_u64 a b c d e f g h)) :: byte) = d"
  "(ucast (drop_bit 32 (le_u64 a b c d e f g h)) :: byte) = e"
  "(ucast (drop_bit 40 (le_u64 a b c d e f g h)) :: byte) = f"
  "(ucast (drop_bit 48 (le_u64 a b c d e f g h)) :: byte) = g"
  "(ucast (drop_bit 56 (le_u64 a b c d e f g h)) :: byte) = h"
  unfolding le_u64_def
  by (rule bit_eqI; auto simp: bit_simps dest: bit_imp_le_length)+

lemma PutUint32_le_u32: "PutUint32 (le_u32 a b c d) = [a, b, c, d]"
  by (simp add: PutUint32_def le_u32_bytes)

lemma PutUint64_le_u64: "PutUint64 (le_u64 a b c d e f g h) = [a, b, c, d, e, f, g, h]"
  by (simp add: PutUint64_def le_u64_bytes)

lemma or_plus_disjoint:
  fixes x y :: "'a::len word"
  assumes "\<And>m. bit x m \<Longrightarrow> m < n" and "\<And>m. bit y m \<Longrightarrow> n \<le> m"
  shows "x OR y = x + y"
proof (rule disjunctive_add[symmetric])
  fix m
  show "\<not> bit x m \<or> \<not> bit y m"
    using assms(1)[of m] assms(2)[of m] by auto
qed

lemma le_u32_of_nat: "le_u32 a b c d = of_nat (le_nat [a, b, c, d])"
proof -
  have "le_u32 a b c d = ucast a + (push_bit 8 (ucast b) + (push_bit 16 (ucast c) + push_bit 24 (ucast d)))"
    unfolding le_u32_def
    apply (subst or_plus_disjoint[where x = "ucast a" and n = 8])
      apply (auto simp: bit_simps dest: bit_imp_le_length)[2]
    apply (subst or_plus_disjoint[where x = "push_bit 8 (ucast b)" and n = 16])
      apply (auto simp: bit_simps dest: bit_imp_le_length)[2]
    apply (subst or_plus_disjoint[where x = "push_bit 16 (ucast c)" and n = 24])
      apply (auto simp: bit_simps dest: bit_imp_le_length)[2]
    apply simp
    done
  then show ?thesis by (simp add: push_bit_eq_mult)
qed

lemma le_nat4_less: "le_nat [a, b, c, d] < 2 ^ 32"
  using unat_byte_less[of a] unat_byte_less[of b] unat_byte_less[of c] unat_byte_less[of d] by simp

lemma unat_le_u32: "unat (le_u32 a b c d) = le_nat [a, b, c, d]"
  using le_u32_of_nat[of a b c d] le_nat4_less[of a b c d]
  by (simp add: of_nat_inverse del: le_nat.simps)

lemma le_u64_of_nat: "le_u64 a b c d e f g h = of_nat (le_nat [a, b, c, d, e, f, g, h])"
proof -
  have "le_u64 a b c d e f g h = ucast a + (push_bit 8 (ucast b) + (push_bit 16 (ucast c) + (push_bit 24 (ucast d)
     + (push_bit 32 (ucast e) + (push_bit 40 (ucast f) + (push_bit 48 (ucast g) + push_bit 56 (ucast h)))))))"
    unfolding le_u64_def
    apply (subst or_plus_disjoint[where x = "ucast a" and n = 8])
      apply (auto simp: bit_simps dest: bit_imp_le_length)[2]
    apply (subst or_plus_disjoint[where x = "push_bit 8 (ucast b)" and n = 16])
      apply (auto simp: bit_simps dest: bit_imp_le_length)[2]
    apply (subst or_plus_disjoint[where x = "push_bit 16 (ucast c)" and n = 24])
      apply (auto simp: bit_simps dest: bit_imp_le_length)[2]
    apply (subst or_plus_disjoint[where x = "push_bit 24 (ucast d)" and n = 32])
      apply (auto simp: bit_simps dest: bit_imp_le_length)[2]
    apply (subst or_plus_disjoint[where x = "push_bit 32 (ucast e)" and n = 40])
      apply (auto simp: bit_simps dest: bit_imp_le_length)[2]
    apply (subst or_plus_disjoint[where x = "push_bit 40 (ucast f)" and n = 48])
      apply (auto simp: bit_simps dest: bit_imp_le_length)[2]
    apply (subst or_plus_disjoint[where x = "push_bit 48 (ucast g)" and n = 56])
      apply (auto simp: bit_simps dest: bit_imp_le_length)[2]
    apply simp
    done
  then show ?thesis by (simp add: push_bit_eq_mult)
qed

lemma le_nat8_less: "le_nat [a, b, c, d, e, f, g, h] < 2 ^ 64"
  using unat_byte_less[of a] unat_byte_less[of b] unat_byte_less[of c] unat_byte_less[of d]
    unat_byte_less[of e] unat_byte_less[of f] unat_byte_less[of g] unat_byte_less[of h] by simp

lemma unat_le_u64: "unat (le_u64 a b c d e f g h) = le_nat [a, b, c, d, e, f, g, h]"
  using le_u64_of_nat[of a b c d e f g h] le_nat8_less[of a b c d e f g h]
  by (simp add: of_nat_inverse del: le_nat.simps)

section \<open>The re-encoding of one group\<close>

lemma sampleBytes_bits: "sampleBytes u = [ucast (drop_bit 8 u), ucast (drop_bit 16 u)]"
  unfolding sampleBytes_def PutUint16_def
  by simp (rule conjI; rule bit_eqI; auto simp: bit_simps)

lemma sampleBytes_le_u32: "sampleBytes (le_u32 a b c d) = [b, c]"
  by (simp add: sampleBytes_bits le_u32_bytes)

lemma nat_eq_15: "15 \<le> n \<Longrightarrow> \<not> 16 \<le> n \<Longrightarrow> n = (15::nat)"
  by simp

lemma nat_eq_7: "7 \<le> n \<Longrightarrow> n < 8 \<Longrightarrow> n = (7::nat)"
  by simp

lemma shifts_sign_extend:
  "signed_drop_bit 16 (push_bit 8 u) = (scast (ucast (drop_bit 8 u) :: u16) :: u32)"
  by (rule bit_eqI) (auto simp: bit_simps min_def dest!: nat_eq_15)

lemma int_le_nat4: "int (le_nat [a, b, c, d]) = uint (le_u32 a b c d)"
  by (simp add: unat_le_u32[symmetric] del: le_nat.simps)

lemma spec_sample_bits:
  "spec_sample a b c d = [ucast (drop_bit 8 (le_u32 a b c d)), ucast (drop_bit 16 (le_u32 a b c d))]"
proof -
  define u where "u = le_u32 a b c d"
  define t where "t = signed_take_bit 15 (drop_bit 16 (signed_take_bit 31 (push_bit 8 (signed_take_bit 31 (uint u)))))"
  have t: "spec_sample a b c d = [of_int (take_bit 8 t), of_int (take_bit 8 (drop_bit 8 t))]"
    unfolding spec_sample_def Let_def int_le_nat4 t_def u_def
    by (simp only: push_bit_eq_mult drop_bit_eq_div take_bit_eq_mod)
  have 1: "(of_int (take_bit 8 t) :: byte) = ucast (drop_bit 8 u)"
    unfolding t_def by (rule bit_eqI) (auto simp: bit_simps min_def)
  have 2: "(of_int (take_bit 8 (drop_bit 8 t)) :: byte) = ucast (drop_bit 16 u)"
    unfolding t_def by (rule bit_eqI) (auto simp: bit_simps min_def dest!: nat_eq_7)
  show ?thesis unfolding t 1 2 u_def ..
qed

lemma spec_sample_eq: "spec_sample a b c d = sampleBytes (le_u32 a b c d)"
  by (simp add: spec_sample_bits sampleBytes_bits)

section \<open>The timestamp conversion is exact\<close>

lemma rem_bounds: "0 \<le> m \<Longrightarrow> 0 \<le> rem m 1000 \<and> rem m 1000 < 1000"
  "m < 0 \<Longrightarrow> - 1000 < rem m 1000 \<and> rem m 1000 \<le> 0"
  unfolding rem_def quo_def by (simp_all add: minus_mod_eq_mult_div[symmetric])

lemma quo_rem: "quo m 1000 * 1000 + rem m 1000 = m"
  by (simp add: rem_def)

lemma quo_small: "- 1000000000 < ns \<Longrightarrow> ns < 0 \<Longrightarrow> quo ns 1000000000 = 0"
  by (simp add: quo_def)

lemma UnixMilli_exact:
  "unix_nanos (UnixMilli m) = m * 1000000 \<and>
   0 \<le> unix_nsec (UnixMilli m) \<and> unix_nsec (UnixMilli m) < 1000000000"
proof (cases "0 \<le> m")
  case True
  then have r: "0 \<le> rem m 1000" "rem m 1000 < 1000" using rem_bounds(1) by auto
  then have "UnixMilli m = \<lparr>unix_sec = quo m 1000, unix_nsec = rem m 1000 * 1000000\<rparr>"
    by (simp add: UnixMilli_def Unix_def)
  then show ?thesis using r quo_rem[of m] by (simp add: unix_nanos_def)
next
  case False
  then have r: "- 1000 < rem m 1000" "rem m 1000 \<le> 0" using rem_bounds(2) by auto
  show ?thesis
  proof (cases "rem m 1000 = 0")
    case True
    then have "UnixMilli m = \<lparr>unix_sec = quo m 1000, unix_nsec = 0\<rparr>"
      by (simp add: UnixMilli_def Unix_def)
    then show ?thesis using True quo_rem[of m] by (simp add: unix_nanos_def)
  next
    case nz: False
    with r have ns: "- 1000000000 < rem m 1000 * 1000000" "rem m 1000 * 1000000 < 0" by auto
    then have "UnixMilli m = \<lparr>unix_sec = quo m 1000 - 1, unix_nsec = rem m 1000 * 1000000 + 1000000000\<rparr>"
      by (simp add: UnixMilli_def Unix_def quo_small Let_def)
    then show ?thesis using ns quo_rem[of m] by (simp add: unix_nanos_def)
  qed
qed

lemma Time_UnixMilli_UnixMilli: "Time_UnixMilli (UnixMilli m) = m"
proof -
  have e: "unix_sec (UnixMilli m) * 1000000000 + unix_nsec (UnixMilli m) = m * 1000000"
    and b: "0 \<le> unix_nsec (UnixMilli m)" "unix_nsec (UnixMilli m) < 1000000000"
    using UnixMilli_exact[of m] by (simp_all add: unix_nanos_def)
  obtain s n where sn: "unix_sec (UnixMilli m) = s" "unix_nsec (UnixMilli m) = n" by simp
  have "quo n 1000000 = n div 1000000" using b sn by (simp add: quo_def)
  moreover have "n = 1000000 * (m - s * 1000)" using e sn by simp
  then have "n div 1000000 = m - s * 1000" by simp
  then have "s * 1000 + n div 1000000 = m" by simp
  ultimately show ?thesis using sn by (simp add: Time_UnixMilli_def)
qed

section \<open>The checksum detects any change confined to one byte\<close>

lemma and_one_bit0: "(x AND 1 = 1) = bit x 0" for x :: u32
  by (simp add: and_one_eq mod_2_eq_odd bit_0)

lemma bit_IEEE_31: "bit IEEE 31"
  by (simp add: IEEE_def bit_iff_odd_drop_bit)

lemma crc_shift_xor: "crc_shift (x XOR y) = crc_shift x XOR crc_shift y"
  unfolding crc_shift_def and_one_bit0
  by (rule bit_eqI) (auto simp: bit_simps)

lemma crc_shift_bit31: "bit (crc_shift x) 31 = bit x 0"
  unfolding crc_shift_def and_one_bit0
  using bit_IEEE_31 by (auto simp: bit_simps dest: bit_imp_le_length)

lemma xor_cancel_right: "x XOR p = y XOR p \<Longrightarrow> x = y" for x y p :: u32
proof -
  assume "x XOR p = y XOR p"
  then have "(x XOR p) XOR p = (y XOR p) XOR p" by simp
  then show "x = y" by (simp add: xor.assoc)
qed

lemma xor_cancel_left: "p XOR x = p XOR y \<Longrightarrow> x = y" for x y p :: u32
  using xor_cancel_right[of x p y] by (simp add: xor.commute)

lemma crc_shift_inj: "crc_shift x = crc_shift y \<Longrightarrow> x = y"
proof -
  assume e: "crc_shift x = crc_shift y"
  then have b0: "bit x 0 = bit y 0" using crc_shift_bit31[of x] crc_shift_bit31[of y] by simp
  from e b0 have d: "drop_bit 1 x = drop_bit 1 y"
    by (auto simp: crc_shift_def and_one_bit0 split: if_splits dest: xor_cancel_right)
  show "x = y"
  proof (rule bit_eqI)
    fix n
    show "bit x n = bit y n"
    proof (cases n)
      case 0 with b0 show ?thesis by simp
    next
      case (Suc m)
      have "bit (drop_bit 1 x) m = bit (drop_bit 1 y) m" using d by simp
      then show ?thesis using Suc by (simp add: bit_simps)
    qed
  qed
qed

lemma populate_xor: "populate k (x XOR y) = populate k x XOR populate k y"
  by (induction k arbitrary: x y) (simp_all add: crc_shift_xor)

lemma populate_inj: "populate k x = populate k y \<Longrightarrow> x = y"
  by (induction k arbitrary: x y) (auto dest: crc_shift_inj)

lemma crc_shift_even: "\<not> bit x 0 \<Longrightarrow> crc_shift x = drop_bit 1 x"
  by (simp add: crc_shift_def and_one_bit0)

lemma populate_push:
  "k \<le> 8 \<Longrightarrow> populate k (push_bit k (drop_bit 8 c)) = drop_bit 8 c"
proof (induction k)
  case 0 show ?case by simp
next
  case (Suc k)
  have "crc_shift (push_bit (Suc k) (drop_bit 8 c)) = drop_bit 1 (push_bit (Suc k) (drop_bit 8 c))"
    by (rule crc_shift_even) (simp add: bit_0 push_bit_eq_mult)
  also have "\<dots> = push_bit k (drop_bit 8 c)"
    using Suc.prems by (intro bit_eqI) (auto simp: bit_simps simp del: push_bit_Suc dest: bit_imp_le_length)
  finally show ?case using Suc by simp
qed

lemma split_low_byte: "c XOR ucast v = ucast (ucast c XOR v :: byte) XOR push_bit 8 (drop_bit 8 c)"
  for c :: u32 and v :: byte
  by (rule bit_eqI) (auto simp: bit_simps dest: bit_imp_le_length)

lemma update_bitwise:
  "IEEETable (ucast crc XOR v) XOR drop_bit 8 crc = populate 8 (crc XOR ucast v)"
proof -
  have "populate 8 (crc XOR ucast v) =
        populate 8 (ucast (ucast crc XOR v :: byte)) XOR populate 8 (push_bit 8 (drop_bit 8 crc))"
    by (subst split_low_byte) (rule populate_xor)
  then show ?thesis by (simp add: IEEETable_def populate_push)
qed

lemma simpleUpdate_loop_inj:
  "simpleUpdate_loop c p = simpleUpdate_loop c' p \<Longrightarrow> c = c'"
proof (induction p arbitrary: c c')
  case Nil then show ?case by simp
next
  case (Cons v p)
  then have "populate 8 (c XOR ucast v) = populate 8 (c' XOR ucast v)"
    by (simp add: update_bitwise)
  then have "c XOR ucast v = c' XOR ucast v" by (rule populate_inj)
  then show ?case by (rule xor_cancel_right)
qed

lemma ucast_byte_inj: "(ucast a :: u32) = ucast b \<Longrightarrow> a = b" for a b :: byte
proof (rule bit_eqI)
  fix n
  assume "(ucast a :: u32) = ucast b"
  then have "bit (ucast a :: u32) n = bit (ucast b :: u32) n" by simp
  then show "bit a n = bit b n" by (auto simp: bit_simps dest: bit_imp_le_length)
qed

lemma simpleUpdate_loop_one_byte:
  "a \<noteq> b \<Longrightarrow> simpleUpdate_loop c (xs @ a # ys) \<noteq> simpleUpdate_loop c (xs @ b # ys)"
proof (induction xs arbitrary: c)
  case Nil
  show ?case
  proof
    assume "simpleUpdate_loop c ([] @ a # ys) = simpleUpdate_loop c ([] @ b # ys)"
    then have "populate 8 (c XOR ucast a) = populate 8 (c XOR ucast b)"
      by (auto simp: update_bitwise dest: simpleUpdate_loop_inj)
    then have "c XOR ucast a = c XOR ucast b" by (rule populate_inj)
    then have "(ucast a :: u32) = ucast b" by (rule xor_cancel_left)
    with Nil show False by (auto dest: ucast_byte_inj)
  qed
next
  case (Cons x xs) then show ?case by simp
qed

lemma ChecksumIEEE_update:
  assumes "i < length xs" "b \<noteq> xs ! i"
  shows "ChecksumIEEE (xs[i := b]) \<noteq> ChecksumIEEE xs"
proof -
  have xs: "xs = take i xs @ xs ! i # drop (Suc i) xs" using assms(1) by (simp add: id_take_nth_drop)
  have "xs[i := b] = take i xs @ b # drop (Suc i) xs" using assms(1) by (simp add: upd_conv_take_nth_drop)
  then have "simpleUpdate_loop (NOT 0) (xs[i := b]) \<noteq> simpleUpdate_loop (NOT 0) (take i xs @ xs ! i # drop (Suc i) xs)"
    using simpleUpdate_loop_one_byte[OF assms(2)] by simp
  with xs show ?thesis by (simp add: ChecksumIEEE_def)
qed

section \<open>The loop and the header in closed form\<close>

lemma spec_payload_short: "length xs < 4 \<Longrightarrow> spec_payload xs = []"
  by (cases xs rule: spec_payload.cases) auto

lemma length_spec_sample: "length (spec_sample a b c d) = 2"
  by (simp add: spec_sample_bits)

lemma length_spec_payload: "length (spec_payload xs) = length xs div 4 * 2"
proof (induction xs rule: spec_payload.induct)
  case (1 b0 b1 b2 b3 rest)
  have "(4 + length rest) div 4 = Suc (length rest div 4)" by simp
  with 1 show ?case by (simp add: length_spec_sample)
qed simp_all

lemma sample_loop_payload:
  "startIndex + i * 4 \<le> length content \<Longrightarrow>
   sample_loop content i body = Inr (body @ spec_payload (drop (startIndex + i * 4) content))"
proof (induction content i body rule: sample_loop.induct)
  case (1 content i body)
  let ?rest = "drop startIndex content"
  have le: "startIndex \<le> length content" using "1.prems" by simp
  show ?case
  proof (cases "i < length ?rest div 4")
    case True
    then have len: "startIndex + i * 4 + 4 \<le> length content" by simp
    then have "4 \<le> length (drop (startIndex + i * 4) content)" by simp
    then obtain a b c d ys where g: "drop (startIndex + i * 4) content = a # b # c # d # ys"
      using list4 by blast
    have ys: "ys = drop (startIndex + (i + 1) * 4) content"
    proof -
      have "drop 4 (drop (startIndex + i * 4) content) = ys" using g by simp
      then show ?thesis by (simp add: add.commute add.left_commute)
    qed
    have ih: "sample_loop content (i + 1) (body @ sampleBytes (le_u32 a b c d)) =
              Inr ((body @ sampleBytes (le_u32 a b c d)) @
                   spec_payload (drop (startIndex + (i + 1) * 4) content))"
    proof (rule "1.IH"[of ?rest "a # b # c # d # ys" "le_u32 a b c d"])
      show "go_slice_from content startIndex = Inr ?rest" using le by (simp add: go_slice_from_eq)
      show "i < length ?rest div 4" by (rule True)
      show "go_slice_from content (startIndex + i * 4) = Inr (a # b # c # d # ys)"
        using len g by (simp add: go_slice_from_eq)
      show "Uint32 (a # b # c # d # ys) = Inr (le_u32 a b c d)" by simp
      show "startIndex + (i + 1) * 4 \<le> length content" using len by simp
    qed
    have "sample_loop content i body =
          sample_loop content (i + 1) (body @ sampleBytes (le_u32 a b c d))"
      using True le len g
      by (subst sample_loop.simps) (simp add: go_slice_from_eq)
    with ih ys g show ?thesis by (simp add: spec_sample_eq)
  next
    case False
    then have "length (drop (startIndex + i * 4) content) < 4" using le by simp
    then have "spec_payload (drop (startIndex + i * 4) content) = []"
      by (rule spec_payload_short)
    moreover have "sample_loop content i body = Inr body"
      using False le by (subst sample_loop.simps) (simp add: go_slice_from_eq)
    ultimately show ?thesis by simp
  qed
qed

lemma sample_loop_short:
  "length content < startIndex \<Longrightarrow> sample_loop content i body = Inl SliceBoundsOutOfRange"
  by (subst sample_loop.simps) (simp add: go_slice_from_eq)

lemma Uint32_exact: "length xs = 4 \<Longrightarrow> Uint32 xs = Inr (le_u32 (xs ! 0) (xs ! 1) (xs ! 2) (xs ! 3))"
  using list4_exact[of xs] by (metis Uint32.simps(1))

lemma Uint64_exact:
  "length xs = 8 \<Longrightarrow>
   Uint64 xs = Inr (le_u64 (xs ! 0) (xs ! 1) (xs ! 2) (xs ! 3) (xs ! 4) (xs ! 5) (xs ! 6) (xs ! 7))"
  using list8_exact[of xs] by (metis Uint64.simps(1))

lemma Uint32_field:
  "off + 4 \<le> length c \<Longrightarrow> Uint32 (take 4 (drop off c)) = Inr (field32 c off)"
  by (subst Uint32_exact) (simp_all add: field32_def add.commute)

lemma Uint64_field:
  "off + 8 \<le> length c \<Longrightarrow> Uint64 (take 8 (drop off c)) = Inr (field64 c off)"
  by (subst Uint64_exact) (simp_all add: field64_def add.commute)

lemma Uint32_field0: "4 \<le> length c \<Longrightarrow> Uint32 (take 4 c) = Inr (field32 c 0)"
  using Uint32_field[of 0 c] by simp

lemma Uint32_field_drop: "off + 4 \<le> length c \<Longrightarrow> Uint32 (drop off c) = Inr (field32 c off)"
proof -
  assume a: "off + 4 \<le> length c"
  then have "4 \<le> length (drop off c)" by simp
  then obtain b0 b1 b2 b3 ys where d: "drop off c = b0 # b1 # b2 # b3 # ys" using list4 by blast
  then have "take 4 (drop off c) = [b0, b1, b2, b3]" by simp
  then have "Uint32 (drop off c) = Uint32 (take 4 (drop off c))" using d by simp
  then show ?thesis using a by (simp only: Uint32_field)
qed

lemma field32_drop: "off + 4 \<le> length c \<Longrightarrow> field32 (drop off c) 0 = field32 c off"
  by (simp add: field32_def add.commute)

lemma decode_header_closed:
  assumes "length header = 32"
  shows "decode_header header hspare = Inr (header_at header, field64 header 12)"
  using assms
  by (simp add: decode_header_def go_slice_within Uint32_field Uint64_field Uint32_field0
      Uint32_field_drop field32_drop header_at_def)

lemma header_at_take: "32 \<le> length c \<Longrightarrow> header_at (take 32 c) = header_at c"
  by (simp add: header_at_def field32_def field64_def)

lemma field64_take: "32 \<le> length c \<Longrightarrow> field64 (take 32 c) 12 = field64 c 12"
  by (simp add: field64_def)

lemma read_header_closed:
  assumes "32 \<le> length content"
  shows "read_header content spare = Inr (header_at content, field64 content 12)"
proof -
  have "go_slice content spare 0 32 = Inr (take 32 content)"
    using assms by (simp add: go_slice_def)
  moreover have "length (take 32 content) = 32" using assms by simp
  ultimately show ?thesis
    using assms by (simp add: read_header_def decode_header_closed header_at_take field64_take)
qed

section \<open>The container buffer and the whole run in closed form\<close>

lemma le_u32_PutUint32:
  "le_u32 (ucast v) (ucast (drop_bit 8 v)) (ucast (drop_bit 16 v)) (ucast (drop_bit 24 v)) = v"
proof (rule bit_eqI)
  fix n :: nat
  have "n < 8 \<or> (8 \<le> n \<and> n < 16) \<or> (16 \<le> n \<and> n < 24) \<or> 24 \<le> n" by arith
  then show "bit (le_u32 (ucast v) (ucast (drop_bit 8 v)) (ucast (drop_bit 16 v))
                   (ucast (drop_bit 24 v))) n = bit v n"
    unfolding le_u32_def
    by (elim disjE) (auto simp: bit_simps dest: bit_imp_le_length)
qed

lemma le_nat_PutUint32: "le_nat (PutUint32 v) = unat v"
  unfolding PutUint32_def
  by (subst unat_le_u32[symmetric]) (simp only: le_u32_PutUint32)

lemma length_waveHeader: "length (waveHeader sr) = 44"
  by (simp add: waveHeader_def Let_def)

lemma backpatch_waveHeader:
  "backpatch (waveHeader sr @ P) =
     take 4 (waveHeader sr) @ PutUint32 (of_nat (36 + length P)) @
     take 32 (drop 8 (waveHeader sr)) @ PutUint32 (of_nat (length P)) @ P"
  by (simp add: backpatch_def waveHeader_def Let_def PutUint32_def)

lemma sample_loop_closed:
  "32 \<le> length content \<Longrightarrow>
   sample_loop content 0 body = Inr (body @ spec_payload (drop 32 content))"
  using sample_loop_payload[of 0 content body] by (simp add: startIndex_def)

lemma main_closed:
  assumes "32 \<le> length content"
  shows "main timeString content spare =
     \<lparr>printed = [String timeString (header_at content)],
      logged = (if \<not> CRCValid (header_at content) then [''CRC mismatch''] else []) @
        [''body samples length: '' @
           FormatUint (length (spec_payload (drop 32 content)) div 2 mod 8), ''done''],
      info_file = Some (String timeString (header_at content)),
      wav_file = Some (backpatch (waveHeader (SampleRate (header_at content)) @
                                  spec_payload (drop 32 content))),
      ending = Exited 0\<rparr>"
  using assms
  by (simp add: main_def read_header_closed sample_loop_closed go_slice_from_eq
      length_waveHeader Let_def)

lemma read_header_no_capacity:
  "length content + length spare < 32 \<Longrightarrow> read_header content spare = Inl SliceBoundsOutOfRange"
  by (simp add: read_header_def go_slice_def)

lemma main_no_capacity:
  assumes "length content + length spare < 32"
  shows "main timeString content spare =
     \<lparr>printed = [], logged = [], info_file = None, wav_file = None,
      ending = Panicked SliceBoundsOutOfRange\<rparr>"
  using assms by (simp add: main_def read_header_no_capacity)

lemma read_header_spare:
  assumes "32 \<le> length content + length spare"
  shows "read_header content spare =
         Inr (header_at (take 32 (content @ spare)), field64 (take 32 (content @ spare)) 12)"
proof -
  have "go_slice content spare 0 32 = Inr (take 32 (content @ spare))"
    using assms by (simp add: go_slice_def)
  moreover have "length (take 32 (content @ spare)) = 32" using assms by simp
  ultimately show ?thesis
    by (simp add: read_header_def decode_header_closed del: take_append)
qed

lemma main_short_with_capacity:
  assumes "length content < 32" and "32 \<le> length content + length spare"
  shows "main timeString content spare =
     \<lparr>printed = [String timeString (header_at (take 32 (content @ spare)))],
      logged = (if \<not> CRCValid (header_at (take 32 (content @ spare)))
                then [''CRC mismatch''] else []),
      info_file = Some (String timeString (header_at (take 32 (content @ spare)))),
      wav_file = None,
      ending = Panicked SliceBoundsOutOfRange\<rparr>"
  using assms
  by (simp add: main_def read_header_spare sample_loop_short startIndex_def Let_def
      del: take_append)

lemma spec_sample_bytes: "spec_sample b0 b1 b2 b3 = [b1, b2]"
  by (simp add: spec_sample_eq sampleBytes_le_u32)

lemma drop44_backpatch:
  "drop 44 (backpatch (waveHeader sr @ P)) = P"
  by (simp add: backpatch_waveHeader length_waveHeader PutUint32_def)

lemma length_example_capture: "length example_capture = 40"
  by (simp add: example_capture_def example_header_def)

lemma drop32_example_capture: "drop 32 example_capture = [0, 0, 1, 0, 0, 0, 0xfe, 0xff]"
  by (simp add: example_capture_def example_header_def)

section \<open>The payload\<close>

text \<open>
  C1. For a buffer of at least 32 bytes the run ends normally and the container's bytes
  from offset 44 on are the payload of the specification: the consecutive
  non-overlapping 4-byte groups of the buffer from offset 32, a trailing partial group
  dropped, each group read as a signed 32-bit little-endian number, shifted left by 8,
  shifted right arithmetically by 16, cut to 16 bits and written as two little-endian
  bytes. The payload has \<open>(length - 32) div 4 * 2\<close> bytes. The two shifts leave bits 8
  to 23 of the group sign-extended from bit 23, so the two bytes written are bytes 1 and
  2 of the group.
\<close>

theorem payload_reencoding:
  assumes "32 \<le> length content"
  shows "(\<exists>w. wav_file (main timeString content spare) = Some w \<and>
              drop 44 w = spec_payload (drop 32 content)) \<and>
         ending (main timeString content spare) = Exited 0 \<and>
         length (spec_payload (drop 32 content)) = (length content - 32) div 4 * 2 \<and>
         sampleBytes (le_u32 b0 b1 b2 b3) = spec_sample b0 b1 b2 b3 \<and>
         spec_sample b0 b1 b2 b3 = [b1, b2] \<and>
         signed_drop_bit 16 (push_bit 8 u) = (scast (ucast (drop_bit 8 u) :: u16) :: u32)"
proof -
  have "wav_file (main timeString content spare) =
        Some (backpatch (waveHeader (SampleRate (header_at content)) @
                         spec_payload (drop 32 content)))"
    using assms by (simp add: main_closed)
  then have 1: "\<exists>w. wav_file (main timeString content spare) = Some w \<and>
                   drop 44 w = spec_payload (drop 32 content)"
    by (simp add: drop44_backpatch)
  have 2: "ending (main timeString content spare) = Exited 0"
    using assms by (simp add: main_closed)
  have 3: "length (spec_payload (drop 32 content)) = (length content - 32) div 4 * 2"
    by (simp add: length_spec_payload)
  show ?thesis
    using 1 2 3 spec_sample_eq[of b0 b1 b2 b3] spec_sample_bytes[of b0 b1 b2 b3]
      shifts_sign_extend[of u]
    by (simp only: simp_thms)
qed

theorem payload_reencoding_witness:
  "32 \<le> length (example_capture @ [0x7f]) \<and>
   (\<exists>w. wav_file (main (\<lambda>t. []) (example_capture @ [0x7f]) []) = Some w \<and>
        drop 44 w = [0, 1, 0, 0xfe]) \<and>
   ending (main (\<lambda>t. []) (example_capture @ [0x7f]) []) = Exited 0 \<and>
   length (spec_payload (drop 32 (example_capture @ [0x7f]))) = 4"
proof -
  have len: "32 \<le> length (example_capture @ [0x7f])"
    by (simp add: length_example_capture)
  have p: "spec_payload (drop 32 (example_capture @ [0x7f])) = [0, 1, 0, 0xfe]"
    by (simp add: drop32_example_capture length_example_capture spec_sample_bytes)
  show ?thesis
    using payload_reencoding[OF len, of "\<lambda>t. []" "[]"] len p
    by (simp add: length_example_capture)
qed

section \<open>The header layout and its round trip\<close>

lemma take4_drop_nth:
  assumes "off + 4 \<le> length c"
  shows "take 4 (drop off c) = [c ! off, c ! (off + 1), c ! (off + 2), c ! (off + 3)]"
proof -
  have "length (take 4 (drop off c)) = 4" using assms by simp
  from list4_exact[OF this] show ?thesis using assms by (simp add: add.commute)
qed

lemma take8_drop_nth:
  assumes "off + 8 \<le> length c"
  shows "take 8 (drop off c) = [c ! off, c ! (off + 1), c ! (off + 2), c ! (off + 3),
                                c ! (off + 4), c ! (off + 5), c ! (off + 6), c ! (off + 7)]"
proof -
  have "length (take 8 (drop off c)) = 8" using assms by simp
  from list8_exact[OF this] show ?thesis using assms by (simp add: add.commute)
qed

lemma unat_field32: "off + 4 \<le> length c \<Longrightarrow> unat (field32 c off) = le_nat (take 4 (drop off c))"
  by (simp only: take4_drop_nth field32_def unat_le_u32)

lemma unat_field64: "off + 8 \<le> length c \<Longrightarrow> unat (field64 c off) = le_nat (take 8 (drop off c))"
  by (simp only: take8_drop_nth field64_def unat_le_u64)

lemma PutUint32_field32: "off + 4 \<le> length c \<Longrightarrow> PutUint32 (field32 c off) = take 4 (drop off c)"
  by (simp only: take4_drop_nth field32_def PutUint32_le_u32)

lemma PutUint64_field64: "off + 8 \<le> length c \<Longrightarrow> PutUint64 (field64 c off) = take 8 (drop off c)"
  by (simp only: take8_drop_nth field64_def PutUint64_le_u64)

lemma take_drop_glue: "take n (drop k xs) @ drop (k + n) xs = drop k xs"
  by (metis add.commute append_take_drop_id drop_drop)

lemma encode_header_at:
  assumes "length header = 32"
  shows "encode_header (header_at header) (field64 header 12) = header"
proof -
  have "encode_header (header_at header) (field64 header 12) =
        take 4 (drop 0 header) @ take 8 (drop 4 header) @ take 8 (drop 12 header) @
        take 4 (drop 20 header) @ take 4 (drop 24 header) @ take 4 (drop 28 header)"
    using assms
    by (simp only: encode_header_def header_at_def Header.simps PutUint32_field32
        PutUint64_field64)
  also have "take 4 (drop 28 header) = drop 28 header" using assms by simp
  also have "take 4 (drop 24 header) @ drop 28 header = drop 24 header"
    using take_drop_glue[of 4 24 header] by simp
  also have "take 4 (drop 20 header) @ drop 24 header = drop 20 header"
    using take_drop_glue[of 4 20 header] by simp
  also have "take 8 (drop 12 header) @ drop 20 header = drop 12 header"
    using take_drop_glue[of 8 12 header] by simp
  also have "take 8 (drop 4 header) @ drop 12 header = drop 4 header"
    using take_drop_glue[of 8 4 header] by simp
  also have "take 4 (drop 0 header) @ drop 4 header = header" by simp
  finally show ?thesis .
qed

lemma length_example_header: "length example_header = 32"
  by (simp add: example_header_def)

text \<open>
  C6. For a buffer of at least 32 bytes the header is decoded, it is the header the
  report is rendered from, and its fields are the little-endian numbers at the offsets
  of the layout: sample rate \<open>[0:4)\<close>, centre frequency \<open>[4:12)\<close>, raw timestamp
  \<open>[12:20)\<close>, sample size \<open>[20:24)\<close>, reserved \<open>[24:28)\<close>, stored checksum \<open>[28:32)\<close>.
\<close>

theorem header_layout:
  assumes "32 \<le> length content"
  shows "\<exists>h raw. read_header content spare = Inr (h, raw) \<and>
           info_file (main timeString content spare) = Some (String timeString h) \<and>
           unat (SampleRate h) = le_nat (take 4 (drop 0 content)) \<and>
           unat (CenterFreq h) = le_nat (take 8 (drop 4 content)) \<and>
           unat raw = le_nat (take 8 (drop 12 content)) \<and>
           unat (SampleSize h) = le_nat (take 4 (drop 20 content)) \<and>
           unat (Reserved h) = le_nat (take 4 (drop 24 content)) \<and>
           unat (CRC h) = le_nat (take 4 (drop 28 content))"
proof (intro exI conjI)
  show "read_header content spare = Inr (header_at content, field64 content 12)"
    using assms by (rule read_header_closed)
  show "info_file (main timeString content spare) = Some (String timeString (header_at content))"
    using assms by (simp add: main_closed)
  show "unat (SampleRate (header_at content)) = le_nat (take 4 (drop 0 content))"
    using assms by (simp only: header_at_def Header.simps) (rule unat_field32, simp)
  show "unat (CenterFreq (header_at content)) = le_nat (take 8 (drop 4 content))"
    using assms by (simp only: header_at_def Header.simps) (rule unat_field64, simp)
  show "unat (field64 content 12) = le_nat (take 8 (drop 12 content))"
    using assms by (intro unat_field64) simp
  show "unat (SampleSize (header_at content)) = le_nat (take 4 (drop 20 content))"
    using assms by (simp only: header_at_def Header.simps) (rule unat_field32, simp)
  show "unat (Reserved (header_at content)) = le_nat (take 4 (drop 24 content))"
    using assms by (simp only: header_at_def Header.simps) (rule unat_field32, simp)
  show "unat (CRC (header_at content)) = le_nat (take 4 (drop 28 content))"
    using assms by (simp only: header_at_def Header.simps) (rule unat_field32, simp)
qed

theorem header_layout_witness:
  "32 \<le> length example_capture \<and>
   (\<exists>h raw. read_header example_capture [] = Inr (h, raw) \<and>
      unat (SampleRate h) = 8000 \<and> unat (CenterFreq h) = 0 \<and> unat raw = 0 \<and>
      unat (SampleSize h) = 0 \<and> unat (Reserved h) = 0 \<and> unat (CRC h) = 2737572848)"
proof -
  have len: "32 \<le> length example_capture" by (simp add: length_example_capture)
  show ?thesis
    using header_layout[OF len, of "[]" "\<lambda>t. []"] len
    by (simp add: example_capture_def example_header_def) blast
qed

text \<open>
  C8. Decoding a 32-byte header and writing the decoded fields back in the layout of the
  specification gives the 32 bytes again, reserved and checksum bytes included. The raw
  timestamp, which the \<open>Header\<close> keeps only as a \<open>Time\<close>, is recovered from it.
\<close>

theorem header_round_trip:
  assumes "length header = 32"
  shows "\<exists>h raw. read_header header spare = Inr (h, raw) \<and>
           encode_header h raw = header \<and>
           raw = word_of_int (Time_UnixMilli (Timestamp h))"
proof (intro exI conjI)
  show "read_header header spare = Inr (header_at header, field64 header 12)"
    using assms by (simp add: read_header_closed)
  show "encode_header (header_at header) (field64 header 12) = header"
    using assms by (rule encode_header_at)
  show "field64 header 12 = word_of_int (Time_UnixMilli (Timestamp (header_at header)))"
    by (simp add: header_at_def Time_UnixMilli_UnixMilli)
qed

theorem header_round_trip_witness:
  "length example_header = 32 \<and>
   (\<exists>h raw. read_header example_header [] = Inr (h, raw) \<and>
      encode_header h raw = example_header)"
  using header_round_trip[OF length_example_header, of "[]"] length_example_header by blast

section \<open>The container preamble and what the container depends on\<close>

lemma byte_of_char_tags:
  "map byte_of_char ''RIFF'' = [0x52, 0x49, 0x46, 0x46]"
  "map byte_of_char ''WAVE'' = [0x57, 0x41, 0x56, 0x45]"
  "map byte_of_char ''fmt '' = [0x66, 0x6d, 0x74, 0x20]"
  "map byte_of_char ''data'' = [0x64, 0x61, 0x74, 0x61]"
  by (simp_all add: byte_of_char_def)

text \<open>
  C7. Before back-patching, the preamble is 44 bytes: the tag RIFF, a zero size field at
  \<open>[4:8)\<close>, the tags WAVE and fmt, sub-chunk size 16, format code 1, channel count 2,
  the sample rate as given, the computed byte rate, block align 4, 16 bits per sample,
  the tag data and a zero size field at \<open>[40:44)\<close>, every number little-endian.
\<close>

theorem preamble_contents:
  "waveHeader sampleRate =
     map byte_of_char ''RIFF'' @ [0, 0, 0, 0] @ map byte_of_char ''WAVE'' @
     map byte_of_char ''fmt '' @ PutUint32 16 @ PutUint16 1 @ PutUint16 2 @
     PutUint32 sampleRate @ PutUint32 (sampleRateCalc sampleRate) @
     PutUint16 4 @ PutUint16 16 @ map byte_of_char ''data'' @ [0, 0, 0, 0] \<and>
   length (waveHeader sampleRate) = 44 \<and>
   take 4 (drop 4 (waveHeader sampleRate)) = [0, 0, 0, 0] \<and>
   take 4 (drop 40 (waveHeader sampleRate)) = [0, 0, 0, 0] \<and>
   Uint32 (drop 24 (waveHeader sampleRate)) = Inr sampleRate \<and>
   Uint32 (drop 28 (waveHeader sampleRate)) = Inr (sampleRateCalc sampleRate) \<and>
   map byte_of_char ''RIFF'' = [0x52, 0x49, 0x46, 0x46] \<and>
   map byte_of_char ''WAVE'' = [0x57, 0x41, 0x56, 0x45] \<and>
   map byte_of_char ''fmt '' = [0x66, 0x6d, 0x74, 0x20] \<and>
   map byte_of_char ''data'' = [0x64, 0x61, 0x74, 0x61]"
proof -
  have 1: "waveHeader sampleRate =
     map byte_of_char ''RIFF'' @ [0, 0, 0, 0] @ map byte_of_char ''WAVE'' @
     map byte_of_char ''fmt '' @ PutUint32 16 @ PutUint16 1 @ PutUint16 2 @
     PutUint32 sampleRate @ PutUint32 (sampleRateCalc sampleRate) @
     PutUint16 4 @ PutUint16 16 @ map byte_of_char ''data'' @ [0, 0, 0, 0]"
    by (simp add: waveHeader_def Let_def PutUint32_def PutUint16_def)
  have 2: "take 4 (drop 4 (waveHeader sampleRate)) = [0, 0, 0, 0]"
    "take 4 (drop 40 (waveHeader sampleRate)) = [0, 0, 0, 0]"
    by (simp_all add: waveHeader_def Let_def)
  have 3: "Uint32 (drop 24 (waveHeader sampleRate)) = Inr sampleRate"
    by (simp add: waveHeader_def Let_def PutUint32_def le_u32_PutUint32)
  have 4: "Uint32 (drop 28 (waveHeader sampleRate)) = Inr (sampleRateCalc sampleRate)"
    by (simp add: waveHeader_def Let_def PutUint32_def le_u32_PutUint32)
  show ?thesis
    using 1 2 3 4 length_waveHeader[of sampleRate] byte_of_char_tags by (simp only: simp_thms)
qed

lemma field32_0_take: "4 \<le> length c \<Longrightarrow> field32 c 0 = field32 (take 4 c) 0"
  by (simp add: field32_def)

lemma SampleRate_header_at:
  assumes "4 \<le> length c1" "4 \<le> length c2" "take 4 c1 = take 4 c2"
  shows "SampleRate (header_at c1) = SampleRate (header_at c2)"
  using assms field32_0_take[of c1] field32_0_take[of c2] by (simp add: header_at_def)

text \<open>
  C10. Two buffers of at least 32 bytes that agree on bytes \<open>[0:4)\<close> and on every byte
  from offset 32 on give the same container, whatever the other header fields, the
  stored checksum and the outcome of the checksum comparison.
\<close>

theorem container_independent_of_other_fields:
  assumes "32 \<le> length c1" and "32 \<le> length c2"
    and "take 4 c1 = take 4 c2" and "drop 32 c1 = drop 32 c2"
  shows "wav_file (main timeString1 c1 spare1) = wav_file (main timeString2 c2 spare2)"
proof -
  have "SampleRate (header_at c1) = SampleRate (header_at c2)"
    using assms by (intro SampleRate_header_at) simp_all
  then show ?thesis using assms by (simp add: main_closed)
qed

theorem container_independent_of_other_fields_witness:
  "32 \<le> length example_capture \<and> 32 \<le> length (example_capture[4 := 0xff, 30 := 0]) \<and>
   take 4 example_capture = take 4 (example_capture[4 := 0xff, 30 := 0]) \<and>
   drop 32 example_capture = drop 32 (example_capture[4 := 0xff, 30 := 0]) \<and>
   example_capture \<noteq> example_capture[4 := 0xff, 30 := 0] \<and>
   wav_file (main (\<lambda>t. []) example_capture []) =
   wav_file (main (\<lambda>t. ''x'') (example_capture[4 := 0xff, 30 := 0]) [0])"
proof -
  have a: "32 \<le> length example_capture" "32 \<le> length (example_capture[4 := 0xff, 30 := 0])"
    by (simp_all add: length_example_capture)
  have b: "take 4 example_capture = take 4 (example_capture[4 := 0xff, 30 := 0])"
    by (simp add: example_capture_def example_header_def)
  have c: "drop 32 example_capture = drop 32 (example_capture[4 := 0xff, 30 := 0])"
    by (simp add: example_capture_def example_header_def)
  have d: "example_capture \<noteq> example_capture[4 := 0xff, 30 := 0]"
    by (simp add: example_capture_def example_header_def)
  show ?thesis
    using container_independent_of_other_fields[OF a b c, of "\<lambda>t. []" "[]" "\<lambda>t. ''x''" "[0]"]
      a b c d by (simp only: simp_thms)
qed

section \<open>The back-patched size fields\<close>

lemma sizes_backpatch:
  "length (backpatch (waveHeader sr @ P)) = 44 + length P"
  "take 4 (drop 4 (backpatch (waveHeader sr @ P))) = PutUint32 (of_nat (36 + length P))"
  "take 4 (drop 40 (backpatch (waveHeader sr @ P))) = PutUint32 (of_nat (length P))"
  by (simp_all add: backpatch_waveHeader length_waveHeader PutUint32_def)

lemma le_nat_size_field: "le_nat (PutUint32 (of_nat n)) = n mod 2 ^ 32"
  by (simp add: le_nat_PutUint32 unat_of_nat)

text \<open>
  C3, as amended. For a buffer of at least 32 bytes the container has
  \<open>44 + (length - 32) div 4 * 2\<close> bytes; read little-endian, its bytes \<open>[4:8)\<close> are the
  total length minus 8 and its bytes \<open>[40:44)\<close> the total length minus 44, both reduced
  modulo \<open>2 ^ 32\<close> by the conversion to \<open>uint32\<close>, hence exactly those numbers when the
  total length minus 8 is below \<open>2 ^ 32\<close>. With no full group after the header the
  container is the 44-byte header alone with the fields 36 and 0.
\<close>

theorem size_fields_modulo:
  assumes "32 \<le> length content"
  shows "\<exists>w. wav_file (main timeString content spare) = Some w \<and>
           length w = 44 + (length content - 32) div 4 * 2 \<and>
           le_nat (take 4 (drop 4 w)) = (length w - 8) mod 2 ^ 32 \<and>
           le_nat (take 4 (drop 40 w)) = (length w - 44) mod 2 ^ 32 \<and>
           (length w - 8 < 2 ^ 32 \<longrightarrow>
              le_nat (take 4 (drop 4 w)) = length w - 8 \<and>
              le_nat (take 4 (drop 40 w)) = length w - 44) \<and>
           (length content < 36 \<longrightarrow>
              length w = 44 \<and> le_nat (take 4 (drop 4 w)) = 36 \<and>
              le_nat (take 4 (drop 40 w)) = 0)"
proof -
  define P where "P = spec_payload (drop 32 content)"
  define w where "w = backpatch (waveHeader (SampleRate (header_at content)) @ P)"
  have lP: "length P = (length content - 32) div 4 * 2"
    by (simp add: P_def length_spec_payload)
  have 1: "wav_file (main timeString content spare) = Some w"
    using assms by (simp add: main_closed w_def P_def)
  have 2: "length w = 44 + (length content - 32) div 4 * 2"
    by (simp add: w_def sizes_backpatch lP)
  have lw: "length w = 44 + length P" by (simp add: w_def sizes_backpatch)
  have 3: "le_nat (take 4 (drop 4 w)) = (length w - 8) mod 2 ^ 32"
    unfolding lw unfolding w_def by (simp only: sizes_backpatch le_nat_size_field) simp
  have 4: "le_nat (take 4 (drop 40 w)) = (length w - 44) mod 2 ^ 32"
    unfolding lw unfolding w_def by (simp only: sizes_backpatch le_nat_size_field) simp
  have 5: "length w - 8 < 2 ^ 32 \<Longrightarrow>
           le_nat (take 4 (drop 4 w)) = length w - 8 \<and> le_nat (take 4 (drop 40 w)) = length w - 44"
    using 3 4 by simp
  have 6: "length content < 36 \<Longrightarrow>
           length w = 44 \<and> le_nat (take 4 (drop 4 w)) = 36 \<and> le_nat (take 4 (drop 40 w)) = 0"
  proof -
    assume "length content < 36"
    then have "length w = 44" using 2 by simp
    with 3 4 show ?thesis by simp
  qed
  show ?thesis
    by (rule exI[of _ w]) (use 1 2 3 4 5 6 in auto)
qed

theorem size_fields_modulo_witness:
  "32 \<le> length example_capture \<and>
   (\<exists>w. wav_file (main (\<lambda>t. []) example_capture []) = Some w \<and> length w = 48 \<and>
        le_nat (take 4 (drop 4 w)) = 40 \<and> le_nat (take 4 (drop 40 w)) = 4) \<and>
   32 \<le> length example_header \<and>
   (\<exists>w. wav_file (main (\<lambda>t. []) example_header []) = Some w \<and> length w = 44 \<and>
        le_nat (take 4 (drop 4 w)) = 36 \<and> le_nat (take 4 (drop 40 w)) = 0)"
proof -
  have a: "32 \<le> length example_capture" by (simp add: length_example_capture)
  have b: "32 \<le> length example_header" by (simp add: length_example_header)
  have 1: "\<exists>w. wav_file (main (\<lambda>t. []) example_capture []) = Some w \<and> length w = 48 \<and>
        le_nat (take 4 (drop 4 w)) = 40 \<and> le_nat (take 4 (drop 40 w)) = 4"
    using size_fields_modulo[OF a, of "\<lambda>t. []" "[]"]
    by (auto simp: length_example_capture)
  have 2: "\<exists>w. wav_file (main (\<lambda>t. []) example_header []) = Some w \<and> length w = 44 \<and>
        le_nat (take 4 (drop 4 w)) = 36 \<and> le_nat (take 4 (drop 40 w)) = 0"
    using size_fields_modulo[OF b, of "\<lambda>t. []" "[]"]
    by (auto simp: length_example_header)
  show ?thesis using a b 1 2 by (simp only: simp_thms)
qed

text \<open>
  C3 as stated fails on a capture with \<open>2 ^ 33\<close> sample bytes: the container has
  \<open>2 ^ 32 + 44\<close> bytes and the two size fields read 36 and 0.
\<close>

theorem size_fields_wrap:
  "\<exists>w. wav_file (main (\<lambda>t. []) (replicate 8589934624 0) []) = Some w \<and>
       length w = 4294967340 \<and>
       le_nat (take 4 (drop 4 w)) = 36 \<and> le_nat (take 4 (drop 4 w)) \<noteq> length w - 8 \<and>
       le_nat (take 4 (drop 40 w)) = 0 \<and> le_nat (take 4 (drop 40 w)) \<noteq> length w - 44"
proof -
  define content :: "byte list" where "content = replicate 8589934624 0"
  have len: "length content = 8589934624" by (simp add: content_def)
  define P where "P = spec_payload (drop 32 content)"
  define w where "w = backpatch (waveHeader (SampleRate (header_at content)) @ P)"
  have lP: "length P = 4294967296"
    by (simp add: P_def length_spec_payload len)
  have 1: "wav_file (main (\<lambda>t. []) content []) = Some w"
    using len by (simp add: main_closed w_def P_def)
  have lw: "length w = 4294967340" by (simp add: w_def sizes_backpatch lP)
  have 3: "le_nat (take 4 (drop 4 w)) = 36"
    unfolding w_def by (simp only: sizes_backpatch le_nat_size_field lP) simp
  have 4: "le_nat (take 4 (drop 40 w)) = 0"
    unfolding w_def by (simp only: sizes_backpatch le_nat_size_field lP) simp
  show ?thesis
    unfolding content_def[symmetric]
    by (rule exI[of _ w]) (simp add: 1 lw 3 4)
qed

section \<open>The byte rate\<close>

lemma sampleRateCalc_small:
  assumes "unat sampleRate < 2 ^ 27"
  shows "unat (sampleRateCalc sampleRate) = 4 * unat sampleRate"
proof -
  have "unat (sampleRate * 16 * 2) = unat sampleRate * 32"
  proof -
    have "sampleRate * 16 * 2 = of_nat (unat sampleRate * 32)" by simp
    moreover have "unat sampleRate * 32 < 2 ^ 32" using assms by simp
    ultimately show ?thesis by (simp add: of_nat_inverse)
  qed
  then have "unat (sampleRateCalc sampleRate) = unat sampleRate * 32 div 8"
    by (simp add: sampleRateCalc_def unat_div)
  then show ?thesis by simp
qed

lemma sampleRateCalc_general:
  "unat (sampleRateCalc sampleRate) = (unat sampleRate * 32 mod 2 ^ 32) div 8"
proof -
  have "sampleRate * 16 * 2 = of_nat (unat sampleRate * 32)" by simp
  then have "unat (sampleRate * 16 * 2) = unat sampleRate * 32 mod 2 ^ 32"
    by (simp only: unat_of_nat) simp
  then show ?thesis by (simp add: sampleRateCalc_def unat_div)
qed

lemma sampleRateCalc_examples:
  "sampleRateCalc 48000 = 192000" "sampleRateCalc 8000 = 32000" "sampleRateCalc 0 = 0"
  by (simp_all add: sampleRateCalc_def)

text \<open>
  C4. The byte rate is computed in \<open>uint32\<close>: 48000 gives 192000 and 0 gives 0, but the
  product \<open>sampleRate * 16 * 2\<close> wraps before the division. A header with sample rate
  \<open>2 ^ 27\<close> is decoded as such, the container carries that sample rate at \<open>[24:28)\<close>,
  and its byte-rate field at \<open>[28:32)\<close> is 0 instead of \<open>2 ^ 29\<close>.
\<close>

theorem byte_rate_overflow:
  "sampleRateCalc 48000 = 192000 \<and> sampleRateCalc 0 = 0 \<and>
   sampleRateCalc 134217728 = 0 \<and>
   (\<exists>h raw w. read_header (example_capture[0 := 0, 1 := 0, 3 := 8]) [] = Inr (h, raw) \<and>
      unat (SampleRate h) = 134217728 \<and>
      wav_file (main timeString (example_capture[0 := 0, 1 := 0, 3 := 8]) []) = Some w \<and>
      le_nat (take 4 (drop 24 w)) = 134217728 \<and>
      le_nat (take 4 (drop 28 w)) = 0)"
proof -
  define c where "c = example_capture[0 := 0, 1 := 0, 3 := 8]"
  have len: "32 \<le> length c" by (simp add: c_def length_example_capture)
  have sr: "SampleRate (header_at c) = 134217728"
    by (simp add: c_def header_at_def field32_def example_capture_def example_header_def le_u32_def)
  have calc: "sampleRateCalc 134217728 = 0" by (simp add: sampleRateCalc_def)
  define w where "w = backpatch (waveHeader 134217728 @ spec_payload (drop 32 c))"
  have 1: "wav_file (main timeString c []) = Some w"
    using len by (simp add: main_closed sr w_def)
  have 2: "take 4 (drop 24 w) = PutUint32 134217728"
    unfolding w_def backpatch_waveHeader
    by (simp add: waveHeader_def Let_def PutUint32_def)
  have 3: "take 4 (drop 28 w) = PutUint32 (sampleRateCalc 134217728)"
    unfolding w_def backpatch_waveHeader
    by (simp add: waveHeader_def Let_def PutUint32_def)
  have "read_header c [] = Inr (header_at c, field64 c 12)" using len by (rule read_header_closed)
  moreover have "unat (SampleRate (header_at c)) = 134217728" by (simp add: sr)
  moreover have "le_nat (take 4 (drop 24 w)) = 134217728" by (simp only: 2 le_nat_PutUint32) simp
  moreover have "le_nat (take 4 (drop 28 w)) = 0" by (simp only: 3 le_nat_PutUint32 calc) simp
  ultimately show ?thesis using calc 1 sampleRateCalc_examples unfolding c_def by blast
qed

section \<open>The timestamp\<close>

lemma sint_small:
  assumes "unat (raw :: u64) < 2 ^ 63"
  shows "sint raw = int (unat raw)"
proof -
  have "int (unat raw) < 2 ^ 63" using assms by (simp only: of_nat_less_numeral_power_cancel_iff)
  then have lt: "uint raw < 2 ^ 63" by simp
  have ge: "- (2 ^ 63) \<le> uint raw"
  proof -
    have "(0::int) \<le> uint raw" by simp
    moreover have "- (2 ^ 63) \<le> (0::int)" by simp
    ultimately show ?thesis by (rule order_trans[rotated])
  qed
  have "signed_take_bit 63 (uint raw) = uint raw"
    using ge lt by (rule signed_take_bit_int_eq_self)
  then show ?thesis by (simp add: sint_uint)
qed

lemma sint_big:
  assumes "2 ^ 63 \<le> unat (raw :: u64)"
  shows "sint raw = int (unat raw) - 2 ^ 64"
proof -
  have "(2::int) ^ 63 \<le> int (unat raw)"
    using assms by (simp only: numeral_power_le_of_nat_cancel_iff)
  then have ge: "2 ^ 63 \<le> uint raw" by simp
  have lt: "uint raw < 2 ^ 64" using uint_lt2p[of raw] by simp
  have "uint raw div 2 ^ 63 = 1"
    using ge lt by (intro int_div_pos_eq[where r = "uint raw - 2 ^ 63"]) simp_all
  then have b: "bit (uint raw) 63" by (simp add: bit_iff_odd)
  have "signed_take_bit 63 (uint raw) = take_bit 64 (uint raw) - 2 ^ 64"
    using b by (simp add: signed_take_bit_eq_take_bit_minus)
  moreover have "take_bit 64 (uint raw) = uint raw"
    using lt by (simp add: take_bit_int_eq_self)
  ultimately show ?thesis by (simp add: sint_uint)
qed

lemma example_raw: "field64 (example_header[19 := 0x80]) 12 = 0x8000000000000000"
  by (simp add: field64_def example_header_def le_u64_def)

text \<open>
  C9, as amended. The raw timestamp is converted through \<open>int64\<close>, so the \<open>Time\<close> stored
  in the header is the instant that many milliseconds from the Unix epoch with the raw
  value read as a signed 64-bit number, to the nanosecond and with the nanosecond part
  in range. Below \<open>2 ^ 63\<close> that is the raw value in milliseconds after the epoch; from
  \<open>2 ^ 63\<close> on it is the raw value minus \<open>2 ^ 64\<close>, an instant before the epoch.
\<close>

theorem timestamp_signed_milliseconds:
  assumes "32 \<le> length content"
  shows "\<exists>h raw. read_header content spare = Inr (h, raw) \<and>
           unat raw = le_nat (take 8 (drop 12 content)) \<and>
           unix_nanos (Timestamp h) = sint raw * 1000000 \<and>
           0 \<le> unix_nsec (Timestamp h) \<and> unix_nsec (Timestamp h) < 1000000000 \<and>
           (unat raw < 2 ^ 63 \<longrightarrow> unix_nanos (Timestamp h) = int (unat raw) * 1000000) \<and>
           (2 ^ 63 \<le> unat raw \<longrightarrow>
              unix_nanos (Timestamp h) = (int (unat raw) - 2 ^ 64) * 1000000)"
proof (intro exI conjI impI)
  let ?raw = "field64 content 12"
  show "read_header content spare = Inr (header_at content, ?raw)"
    using assms by (rule read_header_closed)
  show "unat ?raw = le_nat (take 8 (drop 12 content))"
    using assms by (intro unat_field64) simp
  have ts: "Timestamp (header_at content) = UnixMilli (sint ?raw)" by (simp add: header_at_def)
  show n: "unix_nanos (Timestamp (header_at content)) = sint ?raw * 1000000"
    unfolding ts using UnixMilli_exact[of "sint ?raw"] by simp
  show "0 \<le> unix_nsec (Timestamp (header_at content))"
    unfolding ts using UnixMilli_exact[of "sint ?raw"] by simp
  show "unix_nsec (Timestamp (header_at content)) < 1000000000"
    unfolding ts using UnixMilli_exact[of "sint ?raw"] by simp
  show "unix_nanos (Timestamp (header_at content)) = int (unat ?raw) * 1000000"
    if "unat ?raw < 2 ^ 63"
    using n sint_small[OF that] by simp
  show "unix_nanos (Timestamp (header_at content)) = (int (unat ?raw) - 2 ^ 64) * 1000000"
    if big: "2 ^ 63 \<le> unat ?raw"
  proof -
    have "sint ?raw = int (unat ?raw) - 2 ^ 64" by (rule sint_big[OF big])
    with n show ?thesis by simp
  qed
qed

theorem timestamp_signed_milliseconds_witness:
  "32 \<le> length (example_header[12 := 0xe8, 13 := 0x03]) \<and>
   (\<exists>h raw. read_header (example_header[12 := 0xe8, 13 := 0x03]) [] = Inr (h, raw) \<and>
      unat raw = 1000 \<and> unat raw < 2 ^ 63 \<and> unix_nanos (Timestamp h) = 1000000000) \<and>
   32 \<le> length (example_header[19 := 0x80]) \<and>
   (\<exists>h raw. read_header (example_header[19 := 0x80]) [] = Inr (h, raw) \<and>
      unat raw = 2 ^ 63 \<and> unix_nanos (Timestamp h) = - (2 ^ 63) * 1000000)"
proof -
  have a: "32 \<le> length (example_header[12 := 0xe8, 13 := 0x03])"
    by (simp add: length_example_header)
  have b: "32 \<le> length (example_header[19 := 0x80])"
    by (simp add: length_example_header)
  have 1: "\<exists>h raw. read_header (example_header[12 := 0xe8, 13 := 0x03]) [] = Inr (h, raw) \<and>
      unat raw = 1000 \<and> unat raw < 2 ^ 63 \<and> unix_nanos (Timestamp h) = 1000000000"
  proof -
    from timestamp_signed_milliseconds[OF a, of "[]"] obtain h raw where
      r: "read_header (example_header[12 := 0xe8, 13 := 0x03]) [] = Inr (h, raw)" and
      u: "unat raw = le_nat (take 8 (drop 12 (example_header[12 := 0xe8, 13 := 0x03])))" and
      i: "unat raw < 2 ^ 63 \<longrightarrow> unix_nanos (Timestamp h) = int (unat raw) * 1000000"
      by blast
    have "le_nat (take 8 (drop 12 (example_header[12 := 0xe8, 13 := 0x03]))) = 1000"
      by (simp add: example_header_def)
    with u have u': "unat raw = 1000" by simp
    with i have "unix_nanos (Timestamp h) = 1000000000" by simp
    with r u' show ?thesis by auto
  qed
  have 2: "\<exists>h raw. read_header (example_header[19 := 0x80]) [] = Inr (h, raw) \<and>
      unat raw = 2 ^ 63 \<and> unix_nanos (Timestamp h) = - (2 ^ 63) * 1000000"
  proof -
    from timestamp_signed_milliseconds[OF b, of "[]"] obtain h raw where
      r: "read_header (example_header[19 := 0x80]) [] = Inr (h, raw)" and
      u: "unat raw = le_nat (take 8 (drop 12 (example_header[19 := 0x80])))" and
      i: "2 ^ 63 \<le> unat raw \<longrightarrow>
          unix_nanos (Timestamp h) = (int (unat raw) - 2 ^ 64) * 1000000"
      by blast
    have "le_nat (take 8 (drop 12 (example_header[19 := 0x80]))) = 2 ^ 63"
      by (simp add: example_header_def)
    with u have u': "unat raw = 2 ^ 63" by simp
    with i have "unix_nanos (Timestamp h) = - (2 ^ 63) * 1000000" by simp
    with r u' show ?thesis by auto
  qed
  show ?thesis using a b 1 2 by (simp only: simp_thms)
qed

text \<open>
  C9 as stated fails at the raw timestamp \<open>2 ^ 63\<close> (bytes \<open>[12:20)\<close> equal to
  \<open>00 00 00 00 00 00 00 80\<close>): the stored instant is \<open>2 ^ 63\<close> milliseconds before the
  epoch, not after it.
\<close>

theorem timestamp_before_epoch:
  "\<exists>h raw. read_header (example_header[19 := 0x80]) [] = Inr (h, raw) \<and>
     unat raw = 9223372036854775808 \<and>
     unix_nanos (Timestamp h) = - 9223372036854775808000000 \<and>
     unix_nanos (Timestamp h) \<noteq> int (unat raw) * 1000000"
proof -
  let ?c = "example_header[19 := 0x80]"
  have len: "32 \<le> length ?c" by (simp add: length_example_header)
  have r: "read_header ?c [] = Inr (header_at ?c, field64 ?c 12)"
    using len by (rule read_header_closed)
  have ts: "Timestamp (header_at ?c) = UnixMilli (sint (field64 ?c 12))"
    by (simp add: header_at_def)
  have n: "unix_nanos (Timestamp (header_at ?c)) = - 9223372036854775808000000"
    unfolding ts using UnixMilli_exact[of "sint (field64 ?c 12)"] by (simp add: example_raw)
  show ?thesis
    by (intro exI conjI) (rule r, simp add: example_raw, rule n, simp add: n example_raw)
qed

section \<open>The checksum comparison\<close>

lemma populate8:
  "populate 8 c = crc_shift (crc_shift (crc_shift (crc_shift (crc_shift (crc_shift
     (crc_shift (crc_shift c)))))))"
  by (simp add: eval_nat_numeral)

lemma ChecksumIEEE_eval: "ChecksumIEEE data = NOT (simpleUpdate_loop 0xFFFFFFFF data)"
proof -
  have "NOT (0::u32) = 0xFFFFFFFF" by simp
  then show ?thesis by (simp only: ChecksumIEEE_def)
qed

lemma ChecksumIEEE_check: "ChecksumIEEE (map byte_of_char ''123456789'') = 0xCBF43926"
  by (simp add: byte_of_char_def ChecksumIEEE_eval IEEETable_def populate8 crc_shift_def IEEE_def)

lemma ChecksumIEEE_example: "ChecksumIEEE (take 28 example_capture) = 0xa32c0bf0"
  by (simp add: example_capture_def example_header_def
      ChecksumIEEE_eval IEEETable_def populate8 crc_shift_def IEEE_def)

lemma flip_bit_neq: "k < 8 \<Longrightarrow> flip_bit k (b :: byte) \<noteq> b"
proof
  assume k: "k < 8" and e: "flip_bit k b = b"
  have "bit (flip_bit k b) k = (\<not> bit b k)" using k by (simp add: bit_flip_bit_iff)
  with e show False by simp
qed

lemma CRCValid_header_at:
  "CRCValid (header_at c) = (ChecksumIEEE (take 28 c) = field32 c 28)"
  by (simp add: header_at_def)

lemma CRCValid_numeric:
  assumes "32 \<le> length c"
  shows "CRCValid (header_at c) =
         (unat (ChecksumIEEE (take 28 c)) = le_nat (take 4 (drop 28 c)))"
proof -
  have "unat (field32 c 28) = le_nat (take 4 (drop 28 c))"
    using assms by (intro unat_field32) simp
  then show ?thesis by (simp add: CRCValid_header_at word_unat_eq_iff)
qed

lemma CRCValid_after_change:
  assumes "32 \<le> length c" and "i < 28" and "b \<noteq> c ! i" and "CRCValid (header_at c)"
  shows "\<not> CRCValid (header_at (c[i := b]))"
proof -
  have f: "field32 (c[i := b]) 28 = field32 c 28"
    using assms(2) by (simp add: field32_def)
  have t: "take 28 (c[i := b]) = (take 28 c)[i := b]"
    by (simp add: take_update_swap)
  have "ChecksumIEEE ((take 28 c)[i := b]) \<noteq> ChecksumIEEE (take 28 c)"
    using assms(1,2,3) by (intro ChecksumIEEE_update) simp_all
  then show ?thesis using assms(4) by (simp add: CRCValid_header_at f t)
qed

lemma mismatch_logged:
  assumes "32 \<le> length content"
  shows "(''CRC mismatch'' \<in> set (logged (main timeString content spare))) =
         (\<not> CRCValid (header_at content))"
  using assms by (simp add: main_closed)

text \<open>
  C5. For a buffer of at least 32 bytes the validity flag of the decoded header is true
  exactly when the IEEE checksum of bytes \<open>[0:28)\<close> equals the little-endian number
  stored at \<open>[28:32)\<close>. When it is true, flipping any one bit of any of the first 28
  bytes and leaving the stored value alone makes it false. Valid or not, the run ends
  normally, the report is rendered from the decoded header and the container is
  written; the message \<open>CRC mismatch\<close> is logged exactly when the flag is false.
\<close>

theorem checksum_validity:
  assumes "32 \<le> length content"
  shows "\<exists>h raw. read_header content spare = Inr (h, raw) \<and>
     (CRCValid h \<longleftrightarrow>
        unat (ChecksumIEEE (take 28 content)) = le_nat (take 4 (drop 28 content))) \<and>
     (\<forall>i k. i < 28 \<and> k < 8 \<and> CRCValid h \<longrightarrow>
        (\<exists>h' raw'. read_header (content[i := flip_bit k (content ! i)]) spare = Inr (h', raw') \<and>
                   \<not> CRCValid h')) \<and>
     ending (main timeString content spare) = Exited 0 \<and>
     info_file (main timeString content spare) = Some (String timeString h) \<and>
     wav_file (main timeString content spare) \<noteq> None \<and>
     (''CRC mismatch'' \<in> set (logged (main timeString content spare)) \<longleftrightarrow> \<not> CRCValid h)"
proof (intro exI conjI allI impI)
  show "read_header content spare = Inr (header_at content, field64 content 12)"
    using assms by (rule read_header_closed)
  show "CRCValid (header_at content) =
        (unat (ChecksumIEEE (take 28 content)) = le_nat (take 4 (drop 28 content)))"
    using assms by (rule CRCValid_numeric)
  show "ending (main timeString content spare) = Exited 0"
    using assms by (simp add: main_closed)
  show "info_file (main timeString content spare) = Some (String timeString (header_at content))"
    using assms by (simp add: main_closed)
  show "wav_file (main timeString content spare) \<noteq> None"
    using assms by (simp add: main_closed)
  show "(''CRC mismatch'' \<in> set (logged (main timeString content spare))) =
        (\<not> CRCValid (header_at content))"
    using assms by (rule mismatch_logged)
next
  fix i k
  let ?c = "content[i := flip_bit k (content ! i)]"
  assume a: "i < 28 \<and> k < 8 \<and> CRCValid (header_at content)"
  show "read_header ?c spare = Inr (header_at ?c, field64 ?c 12)"
    using assms by (intro read_header_closed) simp
  show "\<not> CRCValid (header_at ?c)"
    using assms a by (intro CRCValid_after_change) (simp_all add: flip_bit_neq)
qed

theorem checksum_validity_witness:
  "32 \<le> length example_capture \<and>
   (\<exists>h raw. read_header example_capture [] = Inr (h, raw) \<and> CRCValid h \<and>
      ''CRC mismatch'' \<notin> set (logged (main (\<lambda>t. []) example_capture []))) \<and>
   (\<exists>h' raw'. read_header (example_capture[0 := flip_bit 0 (example_capture ! 0)]) [] =
        Inr (h', raw') \<and> \<not> CRCValid h')"
proof -
  have len: "32 \<le> length example_capture" by (simp add: length_example_capture)
  from checksum_validity[OF len, of "[]" "\<lambda>t. []"] obtain h raw where
    r: "read_header example_capture [] = Inr (h, raw)" and
    v: "CRCValid h \<longleftrightarrow>
        unat (ChecksumIEEE (take 28 example_capture)) = le_nat (take 4 (drop 28 example_capture))" and
    f: "\<forall>i k. i < 28 \<and> k < 8 \<and> CRCValid h \<longrightarrow>
        (\<exists>h' raw'. read_header (example_capture[i := flip_bit k (example_capture ! i)]) [] =
             Inr (h', raw') \<and> \<not> CRCValid h')" and
    l: "''CRC mismatch'' \<in> set (logged (main (\<lambda>t. []) example_capture [])) \<longleftrightarrow> \<not> CRCValid h"
    by blast
  have "le_nat (take 4 (drop 28 example_capture)) = 2737572848"
    by (simp add: example_capture_def example_header_def)
  with v have valid: "CRCValid h" by (simp add: ChecksumIEEE_example)
  have "(0::nat) < 28 \<and> (0::nat) < 8 \<and> CRCValid h" using valid by simp
  with f have "\<exists>h' raw'. read_header (example_capture[0 := flip_bit 0 (example_capture ! 0)]) [] =
        Inr (h', raw') \<and> \<not> CRCValid h'" by blast
  with len r valid l show ?thesis by blast
qed

section \<open>Input shorter than the header\<close>

lemma main_short_no_container:
  assumes "length content < 32"
  shows "wav_file (main timeString content spare) = None \<and>
         ending (main timeString content spare) = Panicked SliceBoundsOutOfRange"
proof (cases "32 \<le> length content + length spare")
  case True
  with assms show ?thesis by (simp add: main_short_with_capacity del: take_append)
next
  case False
  then show ?thesis by (simp add: main_no_capacity)
qed

text \<open>
  C2. The program has no length check and no truncated-input error: on 31 bytes it stops
  with the run-time panic of a slice expression. When the buffer has no spare capacity
  the panic is raised by \<open>content[:32]\<close> and nothing is written. When the backing array
  has room for 32 bytes, as the 512-byte buffer of \<open>ioutil.ReadAll\<close> has, \<open>content[:32]\<close>
  succeeds, a header is decoded from the 31 bytes and one spare byte, the report is
  printed and written, and the panic is raised by \<open>content[startIndex:]\<close>; the
  container is not written in either case.
\<close>

theorem truncated_input_unguarded:
  "main timeString (replicate 31 0) [] =
     \<lparr>printed = [], logged = [], info_file = None, wav_file = None,
      ending = Panicked SliceBoundsOutOfRange\<rparr> \<and>
   info_file (main timeString (replicate 31 0) (replicate 481 0)) =
     Some (String timeString (header_at (replicate 32 0))) \<and>
   printed (main timeString (replicate 31 0) (replicate 481 0)) =
     [String timeString (header_at (replicate 32 0))] \<and>
   wav_file (main timeString (replicate 31 0) (replicate 481 0)) = None \<and>
   ending (main timeString (replicate 31 0) (replicate 481 0)) = Panicked SliceBoundsOutOfRange"
proof -
  have t: "take 32 (replicate 31 0 @ replicate 481 (0::byte)) = replicate 32 0"
    by (simp add: replicate_add[symmetric])
  have 1: "main timeString (replicate 31 0) [] =
     \<lparr>printed = [], logged = [], info_file = None, wav_file = None,
      ending = Panicked SliceBoundsOutOfRange\<rparr>"
    by (rule main_no_capacity) simp
  have 2: "main timeString (replicate 31 0) (replicate 481 0) =
     \<lparr>printed = [String timeString (header_at (replicate 32 0))],
      logged = (if \<not> CRCValid (header_at (replicate 32 0)) then [''CRC mismatch''] else []),
      info_file = Some (String timeString (header_at (replicate 32 0))),
      wav_file = None,
      ending = Panicked SliceBoundsOutOfRange\<rparr>"
    using main_short_with_capacity[of "replicate 31 0" "replicate 481 0" timeString]
    by (simp only: t) simp
  show ?thesis by (simp only: 1 2 outcome.simps simp_thms)
qed

end
